theory Spec2Isabelle
  imports Main "HOL-Library.Word"
begin

section \<open>The generic test case minimizer (fuzzers/generic\_minimizer.py)\<close>

text \<open>
  A shallow embedding of \<^verbatim>\<open>CGenericMinimizer\<close>. Files are given by their contents, the
  bytes of a \<^verbatim>\<open>bytearray\<close> are 8-bit words, offsets are the non-negative integers that
  \<^verbatim>\<open>read_diff\<close> accepts, and every exception that can leave the code is a value of
  the type \<open>error\<close>.
\<close>

subsection \<open>Data\<close>

type_synonym byte = "8 word"

text \<open>
  The exceptions: the two that the code raises through indexing and \<^verbatim>\<open>int\<close>, the four
  \<^verbatim>\<open>Exception\<close>s of \<^verbatim>\<open>read_configuration\<close>, and \<open>External s\<close> for whatever the
  operating system or a library raises.
\<close>

datatype error =
    IndexError
  | ValueError
  | InvalidConfigurationFile
  | SectionDoesNotExist string
  | NoCommandSpecified string
  | NoExtensionSpecified string
  | External string

text \<open>The attributes that \<^verbatim>\<open>read_configuration\<close> sets.\<close>

record config =
  pre_command :: "string option"
  post_command :: "string option"
  command :: string
  extension :: string
  timeout :: int
  env :: "string \<rightharpoonup> string"
  cleanup :: "string option"

text \<open>The attributes of the object that the search works on.\<close>

record minimizer =
  conf :: config
  diff :: "nat list"
  template :: "byte list"
  crash :: "nat \<rightharpoonup> byte"

text \<open>
  What the source file takes from outside. Module \<^verbatim>\<open>nfp_process\<close> is imported, not
  defined, by it: its table \<^verbatim>\<open>RETURN_SIGNALS\<close> and the call
  \<^verbatim>\<open>TimeoutCommand(cmd).run(timeout)\<close> are parameters, and so are the three operations
  on files. The type \<open>'w\<close> is the state of everything outside the program; each operation
  returns the new state and either its result or the exception it raises.
  \<^item> \<open>write_temp\<close> is lines 172 and 173: the buffer is written to the temporary file;
  \<^item> \<open>TimeoutCommand\<close> is lines 176 to 181: the environment of the configuration is
    exported and the configured command is run on the file under the configured timeout;
  \<^item> \<open>shutil_copy\<close> is lines 185 to 187: the temporary file is copied into the output
    directory, under the name made of the SHA-1 digest of the buffer and the extension;
  \<^item> \<open>os_remove\<close> is line 192.
\<close>

record 'w system =
  RETURN_SIGNALS :: "int \<rightharpoonup> string"
  write_temp :: "byte list \<Rightarrow> 'w \<Rightarrow> error option \<times> 'w"
  TimeoutCommand :: "config \<Rightarrow> byte list \<Rightarrow> 'w \<Rightarrow> (error + int) \<times> 'w"
  shutil_copy :: "config \<Rightarrow> byte list \<Rightarrow> 'w \<Rightarrow> error option \<times> 'w"
  os_remove :: "'w \<Rightarrow> error option \<times> 'w"

text \<open>
  What a run does, in the order it does it. \<open>Trial pos buf ret\<close> is one call of the
  command on the buffer \<open>buf\<close> built for offset \<open>pos\<close>, with return value \<open>ret\<close>;
  \<open>Copied buf\<close> is a \<^verbatim>\<open>shutil.copy\<close> that went through; \<open>Commit v bo\<close> records lines
  202 to 205: \<open>v\<close> was popped, and \<open>bo\<close> is the byte written into the template, if any.
  The other events are the log messages.
\<close>

datatype event =
    LogPerforming nat
  | LogStarting int
  | LogMinimizing nat nat
  | Trial nat "byte list" int
  | LogSuccess int string
  | Copied "byte list"
  | LogWritten
  | Commit nat "byte option"
  | LogSorry

text \<open>
  The result of a loop or of a run: \<open>status\<close> is \<open>Inl e\<close> when the exception \<open>e\<close> left
  the code, and \<open>Inr m\<close> with the value of the flag \<^verbatim>\<open>minimized\<close> otherwise;
  \<open>visited\<close> counts the executions of the body of the inner loop (it is not a variable
  of the source).
\<close>

record 'w run =
  status :: "error + bool"
  self :: minimizer
  iteration :: nat
  visited :: nat
  world :: 'w
  events :: "event list"

definition emit :: "event list \<Rightarrow> 'w run \<Rightarrow> 'w run" where
  "emit es r = r\<lparr>events := es @ events r\<rparr>"

text \<open>The offsets of the trials among some events, in their order.\<close>

fun trial_offsets :: "event list \<Rightarrow> nat list" where
  "trial_offsets [] = []"
| "trial_offsets (Trial pos buf ret # es) = pos # trial_offsets es"
| "trial_offsets (e # es) = trial_offsets es"

subsection \<open>Indexing\<close>

text \<open>Reading and writing one position of a \<^verbatim>\<open>bytearray\<close> with a non-negative index.\<close>

definition getitem :: "'a list \<Rightarrow> nat \<Rightarrow> error + 'a" where
  "getitem xs i = (if i < length xs then Inr (xs ! i) else Inl IndexError)"

definition setitem :: "'a list \<Rightarrow> nat \<Rightarrow> 'a \<Rightarrow> error + 'a list" where
  "setitem xs i x = (if i < length xs then Inr (xs[i := x]) else Inl IndexError)"

text \<open>\<^verbatim>\<open>list.pop()\<close>: the last element and the list without it.\<close>

definition pop :: "'a list \<Rightarrow> error + ('a \<times> 'a list)" where
  "pop xs = (if xs = [] then Inl IndexError else Inr (last xs, butlast xs))"

subsection \<open>The search: \<^verbatim>\<open>do_try\<close>\<close>

text \<open>
  The \<^verbatim>\<open>finally\<close> clause of line 191: the file is removed whatever the \<^verbatim>\<open>try\<close> block did,
  and an exception of \<^verbatim>\<open>os.remove\<close> replaces the outcome of the block.
\<close>

definition finally_remove :: "'w system \<Rightarrow> error + bool \<Rightarrow> 'w \<Rightarrow> (error + bool) \<times> 'w" where
  "finally_remove P res w =
     (case os_remove P w of
        (Some e, w') \<Rightarrow> (Inl e, w')
      | (None, w') \<Rightarrow> (res, w'))"

text \<open>
  Lines 172 to 192, one trial of a buffer: the outcome is an exception or the value of
  \<^verbatim>\<open>minimized\<close> after the trial.
\<close>

definition trial ::
  "'w system \<Rightarrow> config \<Rightarrow> nat \<Rightarrow> byte list \<Rightarrow> 'w \<Rightarrow> (error + bool) \<times> 'w \<times> event list" where
  "trial P c pos buf w =
     (case write_temp P buf w of
        (Some e, w1) \<Rightarrow> (Inl e, w1, [])
      | (None, w1) \<Rightarrow>
          (case TimeoutCommand P c buf w1 of
             (Inl e, w2) \<Rightarrow>
               (case finally_remove P (Inl e) w2 of (res, w3) \<Rightarrow> (res, w3, []))
           | (Inr ret, w2) \<Rightarrow>
               (case RETURN_SIGNALS P ret of
                  None \<Rightarrow>
                    (case finally_remove P (Inr False) w2 of
                       (res, w3) \<Rightarrow> (res, w3, [Trial pos buf ret]))
                | Some name \<Rightarrow>
                    (case shutil_copy P c buf w2 of
                       (Some e, w3) \<Rightarrow>
                         (case finally_remove P (Inl e) w3 of
                            (res, w4) \<Rightarrow> (res, w4, [Trial pos buf ret, LogSuccess ret name]))
                     | (None, w3) \<Rightarrow>
                         (case finally_remove P (Inr True) w3 of
                            (res, w4) \<Rightarrow>
                              (res, w4, [Trial pos buf ret, LogSuccess ret name, Copied buf,
                                         LogWritten]))))))"

text \<open>
  The inner loop, \<^verbatim>\<open>for pos in self.diff\<close> (lines 162 to 197), over the offsets that are
  left in this round. The \<^verbatim>\<open>continue\<close> of line 168 goes to the next offset without
  reaching line 197.
\<close>

fun for_pos :: "'w system \<Rightarrow> int \<Rightarrow> minimizer \<Rightarrow> nat list \<Rightarrow> nat \<Rightarrow> nat \<Rightarrow> 'w \<Rightarrow> 'w run" where
  "for_pos P start_at st [] it vis w =
     \<lparr>status = Inr False, self = st, iteration = it, visited = vis, world = w, events = []\<rparr>"
| "for_pos P start_at st (pos # rest) it vis w =
     (if start_at \<le> int it then
        (case crash st pos of
           None \<Rightarrow>
             emit [LogMinimizing it (length (diff st) * length (diff st))]
               (for_pos P start_at st rest it (Suc vis) w)
         | Some b \<Rightarrow>
             (case setitem (template st) pos b of
                Inl e \<Rightarrow>
                  \<lparr>status = Inl e, self = st, iteration = it, visited = Suc vis, world = w,
                   events = [LogMinimizing it (length (diff st) * length (diff st))]\<rparr>
              | Inr buf \<Rightarrow>
                  (case trial P (conf st) pos buf w of
                     (res, w', ev) \<Rightarrow>
                       if res = Inr False then
                         emit (LogMinimizing it (length (diff st) * length (diff st)) # ev)
                           (for_pos P start_at st rest (Suc it) (Suc vis) w')
                       else
                         \<lparr>status = res, self = st, iteration = it, visited = Suc vis,
                          world = w',
                          events = LogMinimizing it (length (diff st) * length (diff st)) # ev\<rparr>)))
      else for_pos P start_at st rest (Suc it) (Suc vis) w)"

text \<open>
  Lines 202 to 205: the last offset is popped and, when the map has it, its byte is written
  into the template and it is deleted from the map. The result is the exception, if one
  is raised, the object as it is then, and the event of a commit that went through.
\<close>

definition commit :: "minimizer \<Rightarrow> error option \<times> minimizer \<times> event list" where
  "commit st =
     (case pop (diff st) of
        Inl e \<Rightarrow> (Some e, st, [])
      | Inr (v, d) \<Rightarrow>
          (case crash st v of
             None \<Rightarrow> (None, st\<lparr>diff := d\<rparr>, [Commit v None])
           | Some b \<Rightarrow>
               (case setitem (template st) v b of
                  Inl e \<Rightarrow> (Some e, st\<lparr>diff := d\<rparr>, [])
                | Inr t \<Rightarrow>
                    (None, st\<lparr>diff := d, template := t, crash := (crash st)(v := None)\<rparr>,
                     [Commit v (Some b)]))))"

text \<open>
  The outer loop, \<^verbatim>\<open>for i in range(len(self.diff))\<close> (lines 161 to 205); its first
  argument is the number of rounds that are left, so that \<open>for_i P start_at k\<close> is also the
  run cut after \<open>k\<close> rounds.
\<close>

fun for_i :: "'w system \<Rightarrow> int \<Rightarrow> nat \<Rightarrow> minimizer \<Rightarrow> nat \<Rightarrow> nat \<Rightarrow> 'w \<Rightarrow> 'w run" where
  "for_i P start_at 0 st it vis w =
     \<lparr>status = Inr False, self = st, iteration = it, visited = vis, world = w, events = []\<rparr>"
| "for_i P start_at (Suc k) st it vis w =
     (let r = for_pos P start_at st (diff st) it vis w in
      case status r of
        Inl e \<Rightarrow> r
      | Inr m \<Rightarrow>
          if m then r
          else
            (case commit (self r) of
               (Some e, st', ev) \<Rightarrow> r\<lparr>status := Inl e, self := st'\<rparr>
             | (None, st', ev) \<Rightarrow>
                 emit (events r @ ev)
                   (for_i P start_at k st' (iteration r) (visited r) (world r))))"

definition do_try :: "'w system \<Rightarrow> minimizer \<Rightarrow> int \<Rightarrow> 'w \<Rightarrow> 'w run" where
  "do_try P st start_at w =
     (let r = for_i P start_at (length (diff st)) st 0 0 w in
      case status r of
        Inr False \<Rightarrow> r\<lparr>events := events r @ [LogSorry]\<rparr>
      | _ \<Rightarrow> r)"

subsection \<open>Reading the inputs\<close>

definition NL :: char where
  "NL = CHR 0x0A"

definition CR :: char where
  "CR = CHR 0x0D"

text \<open>
  \<^verbatim>\<open>f.readlines()\<close> on a file opened in binary mode: the content is cut after every
  newline, and each line keeps its newline.
\<close>

fun readlines :: "string \<Rightarrow> string list" where
  "readlines [] = []"
| "readlines (c # cs) =
     (if c = NL then [c] # readlines cs
      else (case readlines cs of [] \<Rightarrow> [[c]] | l # ls \<Rightarrow> (c # l) # ls))"

definition startswith :: "string \<Rightarrow> string \<Rightarrow> bool" where
  "startswith s p = (take (length p) s = p)"

text \<open>\<^verbatim>\<open>s.strip(chars)\<close> removes the characters of \<open>chars\<close> from both ends of \<open>s\<close>.\<close>

definition strip :: "string \<Rightarrow> string \<Rightarrow> string" where
  "strip chars s =
     rev (dropWhile (\<lambda>c. c \<in> set chars) (rev (dropWhile (\<lambda>c. c \<in> set chars) s)))"

definition isdigit :: "string \<Rightarrow> bool" where
  "isdigit s = (s \<noteq> [] \<and> list_all (\<lambda>c. c \<in> set ''0123456789'') s)"

definition digit_value :: "char \<Rightarrow> nat" where
  "digit_value c = of_char c - 48"

text \<open>\<^verbatim>\<open>int(s)\<close> for a string of decimal digits.\<close>

definition int_of_digits :: "string \<Rightarrow> nat" where
  "int_of_digits s = foldl (\<lambda>n c. 10 * n + digit_value c) 0 s"

text \<open>The loop of \<^verbatim>\<open>read_diff\<close> (lines 72 to 78) over the lines of the file.\<close>

fun read_diff_loop :: "nat list \<Rightarrow> string list \<Rightarrow> nat list" where
  "read_diff_loop d [] = d"
| "read_diff_loop d (line # ls) =
     (if startswith line ''#'' then read_diff_loop d ls
      else
        (let line' = strip [CR] (strip [NL] line) in
         if isdigit line' then read_diff_loop (d @ [int_of_digits line']) ls
         else read_diff_loop d ls))"

definition read_diff :: "minimizer \<Rightarrow> string \<Rightarrow> minimizer" where
  "read_diff st content = st\<lparr>diff := read_diff_loop (diff st) (readlines content)\<rparr>"

definition read_template :: "minimizer \<Rightarrow> byte list \<Rightarrow> minimizer" where
  "read_template st content = st\<lparr>template := content\<rparr>"

text \<open>
  The loop of \<^verbatim>\<open>read_crash\<close> (lines 87 and 88): the exception of a failing
  \<^verbatim>\<open>tmp[pos]\<close>, if any, and the map as it is then.
\<close>

fun read_crash_loop :: "byte list \<Rightarrow> nat list \<Rightarrow> (nat \<rightharpoonup> byte) \<Rightarrow> error option \<times> (nat \<rightharpoonup> byte)" where
  "read_crash_loop tmp [] c = (None, c)"
| "read_crash_loop tmp (pos # ps) c =
     (case getitem tmp pos of
        Inl e \<Rightarrow> (Some e, c)
      | Inr b \<Rightarrow> read_crash_loop tmp ps (c(pos \<mapsto> b)))"

definition read_crash :: "minimizer \<Rightarrow> byte list \<Rightarrow> error option \<times> minimizer" where
  "read_crash st tmp =
     (case read_crash_loop tmp (diff st) Map.empty of
        (eo, c) \<Rightarrow> (eo, st\<lparr>crash := c\<rparr>))"

text \<open>
  \<^verbatim>\<open>int(s)\<close> for a string: white space around an optional sign and decimal digits, and
  \<^verbatim>\<open>ValueError\<close> (here \<open>None\<close>) for anything else.
\<close>

definition whitespace :: string where
  "whitespace = [CHR 0x20, CHR 0x09, CHR 0x0A, CHR 0x0D, CHR 0x0B, CHR 0x0C]"

definition py_int :: "string \<Rightarrow> int option" where
  "py_int s =
     (case strip whitespace s of
        [] \<Rightarrow> None
      | c # ds \<Rightarrow>
          if c = CHR ''-'' then (if isdigit ds then Some (- int (int_of_digits ds)) else None)
          else if c = CHR ''+'' then (if isdigit ds then Some (int (int_of_digits ds)) else None)
          else if isdigit (c # ds) then Some (int (int_of_digits (c # ds)))
          else None)"

subsection \<open>The entry point \<^verbatim>\<open>minimize\<close>\<close>

text \<open>
  \<^verbatim>\<open>minimize\<close>, given the contents of the three files (which are taken to be readable) and
  the value of the environment variable \<^verbatim>\<open>NIGHTMARE_ITERATION\<close>, if it is set.
\<close>

definition minimize ::
  "'w system \<Rightarrow> minimizer \<Rightarrow> byte list \<Rightarrow> byte list \<Rightarrow> string \<Rightarrow> string option \<Rightarrow> 'w \<Rightarrow> 'w run" where
  "minimize P st template_file crash_file diff_file nightmare_iteration w =
     (case read_crash (read_template (read_diff st diff_file) template_file) crash_file of
        (Some e, st') \<Rightarrow>
          \<lparr>status = Inl e, self = st', iteration = 0, visited = 0, world = w, events = []\<rparr>
      | (None, st') \<Rightarrow>
          (case nightmare_iteration of
             None \<Rightarrow> emit [LogPerforming (length (diff st'))] (do_try P st' 0 w)
           | Some s \<Rightarrow>
               (case py_int s of
                  None \<Rightarrow>
                    \<lparr>status = Inl ValueError, self = st', iteration = 0, visited = 0, world = w,
                     events = [LogPerforming (length (diff st'))]\<rparr>
                | Some start_at \<Rightarrow>
                    emit [LogPerforming (length (diff st')), LogStarting start_at]
                      (do_try P st' start_at w))))"

text \<open>The object as the constructor leaves it, for a configuration that was read.\<close>

definition new_minimizer :: "config \<Rightarrow> minimizer" where
  "new_minimizer c = \<lparr>conf = c, diff = [], template = [], crash = Map.empty\<rparr>"


subsection \<open>What the events of a run say about the object\<close>

text \<open>
  The template after the commits among some events, from the template before them: a
  commit of the offset \<open>v\<close> with the byte \<open>b\<close> writes \<open>b\<close> at \<open>v\<close>.
\<close>

fun written :: "byte list \<Rightarrow> event list \<Rightarrow> byte list" where
  "written t [] = t"
| "written t (Commit v (Some b) # es) = written (t[v := b]) es"
| "written t (e # es) = written t es"

text \<open>
  Whether every trial among some events was made on the template of its moment with the
  one byte at the offset of the trial replaced by the byte of the map, from the template
  and the map before the events.
\<close>

fun trials_match :: "byte list \<Rightarrow> (nat \<rightharpoonup> byte) \<Rightarrow> event list \<Rightarrow> bool" where
  "trials_match t c [] = True"
| "trials_match t c (Trial pos buf ret # es) =
     (pos < length t \<and> c pos = Some (buf ! pos) \<and> buf = t[pos := buf ! pos] \<and>
      trials_match t c es)"
| "trials_match t c (Commit v (Some b) # es) = trials_match (t[v := b]) (c(v := None)) es"
| "trials_match t c (e # es) = trials_match t c es"

text \<open>The rounds that were completed: the commits among some events.\<close>

fun is_commit :: "event \<Rightarrow> bool" where
  "is_commit (Commit v bo) = True"
| "is_commit e = False"

fun is_copied :: "event \<Rightarrow> bool" where
  "is_copied (Copied buf) = True"
| "is_copied e = False"
subsection \<open>Concrete inputs\<close>

text \<open>
  An operating system on which nothing fails, with a command that dies of signal 11 on
  \<^verbatim>\<open>ABAC\<close> only, and the same with a command that never dies.
\<close>

definition example_conf :: config where
  "example_conf =
     \<lparr>pre_command = None, post_command = None, command = ''target'', extension = ''.bin'',
      timeout = 90, env = Map.empty, cleanup = None\<rparr>"

definition example_system :: "unit system" where
  "example_system =
     \<lparr>RETURN_SIGNALS = [139 \<mapsto> ''SIGSEGV''],
      write_temp = (\<lambda>buf w. (None, w)),
      TimeoutCommand = (\<lambda>c buf w. (Inr (if buf = [0x41, 0x42, 0x41, 0x43] then 139 else 0), w)),
      shutil_copy = (\<lambda>c buf w. (None, w)),
      os_remove = (\<lambda>w. (None, w))\<rparr>"

definition quiet_system :: "unit system" where
  "quiet_system =
     \<lparr>RETURN_SIGNALS = [139 \<mapsto> ''SIGSEGV''],
      write_temp = (\<lambda>buf w. (None, w)),
      TimeoutCommand = (\<lambda>c buf w. (Inr 0, w)),
      shutil_copy = (\<lambda>c buf w. (None, w)),
      os_remove = (\<lambda>w. (None, w))\<rparr>"

text \<open>
  The template \<^verbatim>\<open>AAAA\<close> with the changes \<^verbatim>\<open>B\<close> at offset 1 and \<^verbatim>\<open>C\<close> at offset 3;
  the same template with a change at offset 5, which \<^verbatim>\<open>read_crash\<close> takes from a crashing
  file of six bytes or more; and a template of two bytes with the offset 1 listed twice.
\<close>

definition scenario_A :: minimizer where
  "scenario_A =
     \<lparr>conf = example_conf, diff = [1, 3], template = [0x41, 0x41, 0x41, 0x41],
      crash = [1 \<mapsto> 0x42, 3 \<mapsto> 0x43]\<rparr>"

definition beyond_template :: minimizer where
  "beyond_template =
     \<lparr>conf = example_conf, diff = [1, 5], template = [0x41, 0x41, 0x41, 0x41],
      crash = [1 \<mapsto> 0x42, 5 \<mapsto> 0x58]\<rparr>"

definition twice :: minimizer where
  "twice =
     \<lparr>conf = example_conf, diff = [1, 1], template = [0x41, 0x41], crash = [1 \<mapsto> 0x42]\<rparr>"

section \<open>Properties\<close>

subsection \<open>One trial\<close>

lemma finally_remove_cases:
  "finally_remove P res w = (res', w') \<Longrightarrow> res' = res \<or> (\<exists>e. res' = Inl e)"
  by (auto simp: finally_remove_def split: prod.splits option.splits)

lemma trial_False:
  assumes "trial P c pos buf w = (Inr False, w', ev)"
  shows "\<exists>ret. ev = [Trial pos buf ret] \<and> RETURN_SIGNALS P ret = None"
  using assms
  by (auto simp: trial_def split: prod.splits option.splits sum.splits
      dest!: finally_remove_cases)

lemma trial_True:
  assumes "trial P c pos buf w = (Inr True, w', ev)"
  shows "\<exists>ret name. RETURN_SIGNALS P ret = Some name \<and>
           ev = [Trial pos buf ret, LogSuccess ret name, Copied buf, LogWritten]"
  using assms
  by (auto simp: trial_def split: prod.splits option.splits sum.splits
      dest!: finally_remove_cases)

lemma trial_events:
  assumes "trial P c pos buf w = (res, w', ev)"
  shows "ev = [] \<or>
    (\<exists>ret. RETURN_SIGNALS P ret = None \<and> ev = [Trial pos buf ret] \<and> res \<noteq> Inr True) \<or>
    (\<exists>ret name. RETURN_SIGNALS P ret = Some name \<and> res \<noteq> Inr False \<and>
       (ev = [Trial pos buf ret, LogSuccess ret name] \<and> res \<noteq> Inr True \<or>
        ev = [Trial pos buf ret, LogSuccess ret name, Copied buf, LogWritten]))"
  using assms
  by (auto simp: trial_def split: prod.splits option.splits sum.splits
      dest!: finally_remove_cases)

subsection \<open>The inner loop\<close>

text \<open>The five ways one execution of the body of the inner loop can go.\<close>

lemma for_pos_Cons:
  obtains
    (skip) "\<not> sa \<le> int it"
      "for_pos P sa st (p # rest) it vis w = for_pos P sa st rest (Suc it) (Suc vis) w"
  | (absent) "sa \<le> int it" "crash st p = None"
      "for_pos P sa st (p # rest) it vis w =
         emit [LogMinimizing it (length (diff st) * length (diff st))]
           (for_pos P sa st rest it (Suc vis) w)"
  | (beyond) b where "sa \<le> int it" "crash st p = Some b" "length (template st) \<le> p"
      "for_pos P sa st (p # rest) it vis w =
         \<lparr>status = Inl IndexError, self = st, iteration = it, visited = Suc vis, world = w,
          events = [LogMinimizing it (length (diff st) * length (diff st))]\<rparr>"
  | (stop) b res w' ev where "sa \<le> int it" "crash st p = Some b" "p < length (template st)"
      "trial P (conf st) p ((template st)[p := b]) w = (res, w', ev)" "res \<noteq> Inr False"
      "for_pos P sa st (p # rest) it vis w =
         \<lparr>status = res, self = st, iteration = it, visited = Suc vis, world = w',
          events = LogMinimizing it (length (diff st) * length (diff st)) # ev\<rparr>"
  | (pass) b w' ev where "sa \<le> int it" "crash st p = Some b" "p < length (template st)"
      "trial P (conf st) p ((template st)[p := b]) w = (Inr False, w', ev)"
      "for_pos P sa st (p # rest) it vis w =
         emit (LogMinimizing it (length (diff st) * length (diff st)) # ev)
           (for_pos P sa st rest (Suc it) (Suc vis) w')"
proof (cases "sa \<le> int it")
  case False
  then show ?thesis by (intro skip) simp_all
next
  case le: True
  show ?thesis
  proof (cases "crash st p")
    case None
    with le show ?thesis by (intro absent) simp_all
  next
    case (Some b)
    show ?thesis
    proof (cases "p < length (template st)")
      case False
      with le Some show ?thesis
        by (intro beyond [of b]) (simp_all add: setitem_def)
    next
      case True
      obtain res w' ev where t: "trial P (conf st) p ((template st)[p := b]) w = (res, w', ev)"
        by (cases "trial P (conf st) p ((template st)[p := b]) w")
      show ?thesis
      proof (cases "res = Inr False")
        case False
        with le Some True t show ?thesis
          by (intro stop [of b res w' ev]) (simp_all add: setitem_def)
      next
        case eq: True
        with le Some True t show ?thesis
          by (intro pass [of b w' ev]) (simp_all add: setitem_def)
      qed
    qed
  qed
qed

lemma for_pos_self: "self (for_pos P sa st poss it vis w) = st"
proof (induction poss arbitrary: it vis w)
  case Nil
  show ?case by simp
next
  case (Cons p rest)
  show ?case
    by (cases rule: for_pos_Cons [of sa it P st p rest vis w])
       (simp_all add: Cons.IH emit_def)
qed

lemma for_pos_trial_offsets:
  "status (for_pos P sa st poss it vis w) = Inr False \<Longrightarrow>
   trial_offsets (events (for_pos P sa st poss it vis w)) =
     filter (\<lambda>p. crash st p \<noteq> None) (drop (nat (sa - int it)) poss)"
proof (induction poss arbitrary: it vis w)
  case Nil
  show ?case by simp
next
  case (Cons p rest)
  show ?case
  proof (cases rule: for_pos_Cons [of sa it P st p rest vis w])
    case skip
    have "nat (sa - int it) = Suc (nat (sa - int (Suc it)))"
      using skip(1) by simp
    then show ?thesis
      using Cons.IH [of "Suc it" "Suc vis" w] Cons.prems skip(2) by simp
  next
    case absent
    have "nat (sa - int it) = 0"
      using absent(1) by simp
    then show ?thesis
      using Cons.IH [of it "Suc vis" w] Cons.prems absent(2,3) by (simp add: emit_def)
  next
    case (beyond b)
    then show ?thesis using Cons.prems by simp
  next
    case (stop b res w' ev)
    then show ?thesis using Cons.prems by simp
  next
    case (pass b w' ev)
    obtain ret where ev: "ev = [Trial p ((template st)[p := b]) ret]"
      using trial_False [OF pass(4)] by blast
    have "nat (sa - int it) = 0" "nat (sa - int (Suc it)) = 0"
      using pass(1) by simp_all
    then show ?thesis
      using Cons.IH [of "Suc it" "Suc vis" w'] Cons.prems pass(2,5) ev by (simp add: emit_def)
  qed
qed

lemma for_pos_trials_pass:
  "status (for_pos P sa st poss it vis w) = Inr False \<Longrightarrow>
   Trial pos buf ret \<in> set (events (for_pos P sa st poss it vis w)) \<Longrightarrow>
   RETURN_SIGNALS P ret = None"
proof (induction poss arbitrary: it vis w)
  case Nil
  then show ?case by simp
next
  case (Cons p rest)
  show ?case
  proof (cases rule: for_pos_Cons [of sa it P st p rest vis w])
    case skip
    then show ?thesis
      using Cons.IH [of "Suc it" "Suc vis" w] Cons.prems by simp
  next
    case absent
    then show ?thesis
      using Cons.IH [of it "Suc vis" w] Cons.prems by (simp add: emit_def)
  next
    case (beyond b)
    then show ?thesis using Cons.prems by simp
  next
    case (stop b res w' ev)
    then show ?thesis using Cons.prems by simp
  next
    case (pass b w' ev)
    obtain rt where ev: "ev = [Trial p ((template st)[p := b]) rt]" "RETURN_SIGNALS P rt = None"
      using trial_False [OF pass(4)] by blast
    show ?thesis
      using Cons.IH [of "Suc it" "Suc vis" w'] Cons.prems pass(5) ev
      by (auto simp: emit_def)
  qed
qed

subsection \<open>The outer loop\<close>

text \<open>The three ways one round of the outer loop can go.\<close>

lemma for_i_Suc:
  fixes P sa st it vis w k
  defines "r \<equiv> for_pos P sa st (diff st) it vis w"
    and "v \<equiv> last (diff st)"
  defines "c \<equiv> Commit v (crash st v)"
  defines "st' \<equiv> st\<lparr>diff := butlast (diff st),
      template := (case crash st v of None \<Rightarrow> template st | Some b \<Rightarrow> (template st)[v := b]),
      crash := (crash st)(v := None)\<rparr>"
  obtains
    (stop) "status r \<noteq> Inr False" "for_i P sa (Suc k) st it vis w = r"
  | (raise) "status r = Inr False"
      "diff st = [] \<or> (\<exists>b. crash st v = Some b \<and> length (template st) \<le> v)"
      "for_i P sa (Suc k) st it vis w =
         r\<lparr>status := Inl IndexError, self := st\<lparr>diff := butlast (diff st)\<rparr>\<rparr>"
  | (go) "status r = Inr False" "diff st \<noteq> []"
      "\<forall>b. crash st v = Some b \<longrightarrow> v < length (template st)"
      "for_i P sa (Suc k) st it vis w =
         emit (events r @ [c]) (for_i P sa k st' (iteration r) (visited r) (world r))"
proof (cases "status r = Inr False")
  case False
  then have "for_i P sa (Suc k) st it vis w = r"
    unfolding r_def by (auto simp: Let_def split: sum.splits)
  with False show ?thesis by (rule stop)
next
  case True
  have s: "self r = st" unfolding r_def by (rule for_pos_self)
  show ?thesis
  proof (cases "diff st = [] \<or> (\<exists>b. crash st v = Some b \<and> length (template st) \<le> v)")
    case bad: True
    have "commit st = (Some IndexError, st\<lparr>diff := butlast (diff st)\<rparr>, [])"
    proof (cases "diff st = []")
      case True
      then show ?thesis by (simp add: commit_def pop_def)
    next
      case False
      then show ?thesis
        using bad unfolding v_def by (auto simp: commit_def pop_def setitem_def)
    qed
    then have "for_i P sa (Suc k) st it vis w =
        r\<lparr>status := Inl IndexError, self := st\<lparr>diff := butlast (diff st)\<rparr>\<rparr>"
      using True s unfolding r_def by (simp add: Let_def)
    with True bad show ?thesis by (rule raise)
  next
    case good: False
    then have "commit st = (None, st', [c])"
      unfolding v_def c_def st'_def
      by (cases "crash st (last (diff st))")
         (auto simp: commit_def pop_def setitem_def fun_upd_idem)
    then have "for_i P sa (Suc k) st it vis w =
         emit (events r @ [c]) (for_i P sa k st' (iteration r) (visited r) (world r))"
      using True s unfolding r_def by (simp add: Let_def)
    with True good show ?thesis by (intro go) auto
  qed
qed

lemma scenario_A_round:
  "for_pos example_system 0 scenario_A [1, 3] 0 0 () =
    \<lparr>status = Inr False, self = scenario_A, iteration = 2, visited = 2, world = (),
     events = [LogMinimizing 0 4, Trial 1 [0x41, 0x42, 0x41, 0x41] 0,
               LogMinimizing 1 4, Trial 3 [0x41, 0x41, 0x41, 0x43] 0]\<rparr>"
  by (simp add: example_system_def scenario_A_def setitem_def emit_def trial_def
      finally_remove_def)

lemma beyond_template_round:
  "for_pos quiet_system 10 beyond_template [1, 5] 0 0 () =
    \<lparr>status = Inr False, self = beyond_template, iteration = 2, visited = 2, world = (),
     events = []\<rparr>"
  by simp

subsection \<open>A round that finds no crash\<close>

text \<open>
  Claim C1, as amended. Take a round of the outer loop, started on any object whose list of
  offsets is not empty, whose inner loop runs to its end: no trial is classified as a crash
  and none raises. Then the inner loop has left the object as it was, it has made one trial
  for every offset of the list that is in the map and is not skipped by the resume threshold,
  in the order of the list, and none of them returned a key of \<^verbatim>\<open>RETURN_SIGNALS\<close>. What
  follows these trials depends on the last entry \<open>v\<close> of the list:
  \<^item> if \<open>v\<close> is not in the map, or is in the map and is a position of the template, the
    commit removes \<open>v\<close> from the list, writes the byte of the map at \<open>v\<close> (if any) into
    the template at \<open>v\<close> and deletes \<open>v\<close> from the map, and the remaining rounds go on
    from there;
  \<^item> if \<open>v\<close> is in the map and is not a position of the template, \<open>v\<close> is removed from
    the list and line 204 raises \<^verbatim>\<open>IndexError\<close>: nothing is written and nothing is
    deleted from the map.
\<close>

theorem C1_round_without_crash:
  assumes nonempty: "diff st \<noteq> []"
    and r: "r = for_pos P start_at st (diff st) it vis w"
    and fin: "status r = Inr False"
    and v: "v = last (diff st)"
  shows "self r = st \<and>
    trial_offsets (events r) =
      filter (\<lambda>p. crash st p \<noteq> None) (drop (nat (start_at - int it)) (diff st)) \<and>
    (\<forall>pos buf ret. Trial pos buf ret \<in> set (events r) \<longrightarrow> RETURN_SIGNALS P ret = None) \<and>
    ((\<forall>b. crash st v = Some b \<longrightarrow> v < length (template st)) \<longrightarrow>
       for_i P start_at (Suc k) st it vis w =
         emit (events r @ [Commit v (crash st v)])
           (for_i P start_at k
              (st\<lparr>diff := butlast (diff st),
                  template := (case crash st v of None \<Rightarrow> template st
                               | Some b \<Rightarrow> (template st)[v := b]),
                  crash := (crash st)(v := None)\<rparr>)
              (iteration r) (visited r) (world r))) \<and>
    ((\<exists>b. crash st v = Some b \<and> length (template st) \<le> v) \<longrightarrow>
       for_i P start_at (Suc k) st it vis w =
         r\<lparr>status := Inl IndexError, self := st\<lparr>diff := butlast (diff st)\<rparr>\<rparr>)"
proof -
  have a: "self r = st"
    unfolding r by (rule for_pos_self)
  have b: "trial_offsets (events r) =
      filter (\<lambda>p. crash st p \<noteq> None) (drop (nat (start_at - int it)) (diff st))"
    using fin unfolding r by (rule for_pos_trial_offsets)
  have c: "\<forall>pos buf ret. Trial pos buf ret \<in> set (events r) \<longrightarrow> RETURN_SIGNALS P ret = None"
    using fin unfolding r by (blast intro: for_pos_trials_pass)
  have d: "for_i P start_at (Suc k) st it vis w =
         emit (events r @ [Commit v (crash st v)])
           (for_i P start_at k
              (st\<lparr>diff := butlast (diff st),
                  template := (case crash st v of None \<Rightarrow> template st
                               | Some b \<Rightarrow> (template st)[v := b]),
                  crash := (crash st)(v := None)\<rparr>)
              (iteration r) (visited r) (world r))"
    if "\<forall>b. crash st v = Some b \<longrightarrow> v < length (template st)"
  proof (cases rule: for_i_Suc [of P start_at st it vis w k])
    case stop
    then show ?thesis using fin r by simp
  next
    case raise
    then show ?thesis using that nonempty v by auto
  next
    case go
    then show ?thesis unfolding r v by simp
  qed
  have e: "for_i P start_at (Suc k) st it vis w =
         r\<lparr>status := Inl IndexError, self := st\<lparr>diff := butlast (diff st)\<rparr>\<rparr>"
    if "\<exists>b. crash st v = Some b \<and> length (template st) \<le> v"
  proof (cases rule: for_i_Suc [of P start_at st it vis w k])
    case stop
    then show ?thesis using fin r by simp
  next
    case raise
    then show ?thesis using r by simp
  next
    case go
    then show ?thesis using that v by auto
  qed
  from a b c d e show ?thesis by blast
qed

text \<open>
  The claim as it is written fails where the last offset is in the map and is not a position
  of the template, and the resume threshold skips its trial: with the template \<^verbatim>\<open>AAAA\<close>,
  the offsets 1 and 5 and the threshold 10, the first round makes no trial, so none is
  classified as a crash; offset 5 is popped, and then \<^verbatim>\<open>IndexError\<close> leaves the code with
  the template unchanged and offset 5 still in the map.
\<close>

theorem C1_counterexample:
  "events (for_pos quiet_system 10 beyond_template (diff beyond_template) 0 0 ()) = [] \<and>
   status (for_pos quiet_system 10 beyond_template (diff beyond_template) 0 0 ()) = Inr False \<and>
   status (for_i quiet_system 10 (Suc 0) beyond_template 0 0 ()) = Inl IndexError \<and>
   diff (self (for_i quiet_system 10 (Suc 0) beyond_template 0 0 ())) = [1] \<and>
   template (self (for_i quiet_system 10 (Suc 0) beyond_template 0 0 ())) =
     template beyond_template \<and>
   crash (self (for_i quiet_system 10 (Suc 0) beyond_template 0 0 ())) 5 = Some 0x58"
proof -
  have d: "diff beyond_template = [1, 5]"
    by (simp add: beyond_template_def)
  show ?thesis
    unfolding for_i.simps d beyond_template_round
    by (simp add: beyond_template_def commit_def pop_def setitem_def)
qed

theorem C1_round_without_crash_witness:
  "diff scenario_A = [1, 3] \<and>
   status (for_pos example_system 0 scenario_A (diff scenario_A) 0 0 ()) = Inr False \<and>
   trial_offsets (events (for_pos example_system 0 scenario_A (diff scenario_A) 0 0 ())) = [1, 3] \<and>
   for_i example_system 0 (Suc 0) scenario_A 0 0 () =
     \<lparr>status = Inr False,
      self = scenario_A\<lparr>diff := [1], template := [0x41, 0x41, 0x41, 0x43], crash := [1 \<mapsto> 0x42]\<rparr>,
      iteration = 2, visited = 2, world = (),
      events = [LogMinimizing 0 4, Trial 1 [0x41, 0x42, 0x41, 0x41] 0,
                LogMinimizing 1 4, Trial 3 [0x41, 0x41, 0x41, 0x43] 0,
                Commit 3 (Some 0x43)]\<rparr> \<and>
   diff beyond_template = [1, 5] \<and>
   status (for_pos quiet_system 10 beyond_template (diff beyond_template) 0 0 ()) = Inr False \<and>
   for_i quiet_system 10 (Suc 0) beyond_template 0 0 () =
     \<lparr>status = Inl IndexError, self = beyond_template\<lparr>diff := [1]\<rparr>,
      iteration = 2, visited = 2, world = (), events = []\<rparr>"
proof -
  have d: "diff scenario_A = [1, 3]"
    by (simp add: scenario_A_def)
  have n: "diff scenario_A \<noteq> []"
    by (simp add: d)
  have f: "status (for_pos example_system 0 scenario_A (diff scenario_A) 0 0 ()) = Inr False"
    unfolding d scenario_A_round by simp
  have m: "[1 \<mapsto> 0x42, 3 \<mapsto> 0x43::byte](3 := None) = [1::nat \<mapsto> 0x42]"
    by (rule ext) simp
  have d': "diff beyond_template = [1, 5]"
    by (simp add: beyond_template_def)
  have n': "diff beyond_template \<noteq> []"
    by (simp add: d')
  have f': "status (for_pos quiet_system 10 beyond_template (diff beyond_template) 0 0 ()) = Inr False"
    unfolding d' beyond_template_round by simp
  have one: "trial_offsets (events (for_pos example_system 0 scenario_A (diff scenario_A) 0 0 ())) = [1, 3] \<and>
   for_i example_system 0 (Suc 0) scenario_A 0 0 () =
     \<lparr>status = Inr False,
      self = scenario_A\<lparr>diff := [1], template := [0x41, 0x41, 0x41, 0x43], crash := [1 \<mapsto> 0x42]\<rparr>,
      iteration = 2, visited = 2, world = (),
      events = [LogMinimizing 0 4, Trial 1 [0x41, 0x42, 0x41, 0x41] 0,
                LogMinimizing 1 4, Trial 3 [0x41, 0x41, 0x41, 0x43] 0,
                Commit 3 (Some 0x43)]\<rparr>"
    using C1_round_without_crash [OF n refl f refl, of 0]
    unfolding d scenario_A_round
    by (simp add: emit_def scenario_A_def m)
  have two: "for_i quiet_system 10 (Suc 0) beyond_template 0 0 () =
     \<lparr>status = Inl IndexError, self = beyond_template\<lparr>diff := [1]\<rparr>,
      iteration = 2, visited = 2, world = (), events = []\<rparr>"
    using C1_round_without_crash [OF n' refl f' refl, of 0]
    unfolding d' beyond_template_round
    by (simp add: beyond_template_def)
  from d f one d' f' two show ?thesis by simp
qed

subsection \<open>Offsets are used unchecked\<close>

lemma read_crash_loop_beyond:
  "\<exists>pos\<in>set d. length tmp \<le> pos \<Longrightarrow> fst (read_crash_loop tmp d c) = Some IndexError"
proof (induction d arbitrary: c)
  case Nil
  then show ?case by simp
next
  case (Cons p d)
  show ?case
  proof (cases "p < length tmp")
    case True
    then have "\<exists>pos\<in>set d. length tmp \<le> pos"
      using Cons.prems by auto
    then show ?thesis
      using Cons.IH True by (simp add: getitem_def)
  next
    case False
    then show ?thesis by (simp add: getitem_def)
  qed
qed

text \<open>
  Claim C10. No function checks an offset against the length of a buffer. If some offset
  of the list is not a position of the crashing file, \<^verbatim>\<open>read_crash\<close> raises
  \<^verbatim>\<open>IndexError\<close>, and so does \<^verbatim>\<open>minimize\<close>, before anything is logged or run. If an
  offset of the map is not a position of the template, building its trial buffer (line
  170, reached when the resume threshold is passed and the offset is in the map) raises
  \<^verbatim>\<open>IndexError\<close>: the inner loop ends there with this exception, without a trial, and
  the exception leaves \<^verbatim>\<open>do_try\<close>. An offset that is not in the map is passed over at
  line 167.
\<close>

theorem C10_offsets_unchecked:
  "((\<exists>pos\<in>set (diff st). length crash_file \<le> pos) \<longrightarrow>
      fst (read_crash st crash_file) = Some IndexError) \<and>
   ((\<exists>pos\<in>set (read_diff_loop (diff st) (readlines diff_file)). length crash_file \<le> pos) \<longrightarrow>
      status (minimize P st template_file crash_file diff_file ni w) = Inl IndexError \<and>
      events (minimize P st template_file crash_file diff_file ni w) = [] \<and>
      world (minimize P st template_file crash_file diff_file ni w) = w) \<and>
   (start_at \<le> int it \<and> length (template st) \<le> pos \<longrightarrow>
      for_pos P start_at st (pos # rest) it vis w =
        (case crash st pos of
           None \<Rightarrow>
             emit [LogMinimizing it (length (diff st) * length (diff st))]
               (for_pos P start_at st rest it (Suc vis) w)
         | Some b \<Rightarrow>
             \<lparr>status = Inl IndexError, self = st, iteration = it, visited = Suc vis, world = w,
              events = [LogMinimizing it (length (diff st) * length (diff st))]\<rparr>)) \<and>
   (diff st = pos # rest \<and> start_at \<le> 0 \<and> crash st pos \<noteq> None \<and>
    length (template st) \<le> pos \<longrightarrow>
      do_try P st start_at w =
        \<lparr>status = Inl IndexError, self = st, iteration = 0, visited = Suc 0, world = w,
         events = [LogMinimizing 0 (length (diff st) * length (diff st))]\<rparr>)"
proof -
  have a: "fst (read_crash s crash_file) = Some IndexError"
    if "\<exists>pos\<in>set (diff s). length crash_file \<le> pos" for s
    using read_crash_loop_beyond [OF that, of Map.empty]
    by (cases "read_crash_loop crash_file (diff s) Map.empty") (simp add: read_crash_def)
  have b: "status (minimize P st template_file crash_file diff_file ni w) = Inl IndexError \<and>
      events (minimize P st template_file crash_file diff_file ni w) = [] \<and>
      world (minimize P st template_file crash_file diff_file ni w) = w"
    if "\<exists>pos\<in>set (read_diff_loop (diff st) (readlines diff_file)). length crash_file \<le> pos"
  proof -
    have "fst (read_crash (read_template (read_diff st diff_file) template_file) crash_file) =
        Some IndexError"
      using that by (intro a) (simp add: read_template_def read_diff_def)
    then show ?thesis
      by (cases "read_crash (read_template (read_diff st diff_file) template_file) crash_file")
         (simp add: minimize_def)
  qed
  have c: "for_pos P start_at st (pos # rest) it vis w =
        (case crash st pos of
           None \<Rightarrow>
             emit [LogMinimizing it (length (diff st) * length (diff st))]
               (for_pos P start_at st rest it (Suc vis) w)
         | Some b \<Rightarrow>
             \<lparr>status = Inl IndexError, self = st, iteration = it, visited = Suc vis, world = w,
              events = [LogMinimizing it (length (diff st) * length (diff st))]\<rparr>)"
    if "start_at \<le> int it \<and> length (template st) \<le> pos"
    using that by (simp add: setitem_def split: option.splits)
  have d: "do_try P st start_at w =
        \<lparr>status = Inl IndexError, self = st, iteration = 0, visited = Suc 0, world = w,
         events = [LogMinimizing 0 (length (diff st) * length (diff st))]\<rparr>"
    if "diff st = pos # rest \<and> start_at \<le> 0 \<and> crash st pos \<noteq> None \<and>
      length (template st) \<le> pos"
    using that by (auto simp: do_try_def setitem_def)
  from a [of st] b c d show ?thesis by blast
qed

theorem C10_offsets_unchecked_witness:
  "diff beyond_template = [1, 5] \<and>
   fst (read_crash beyond_template [0x41, 0x42]) = Some IndexError \<and>
   read_diff_loop (diff (new_minimizer example_conf)) (readlines [CHR ''5'', NL]) = [5] \<and>
   status (minimize quiet_system (new_minimizer example_conf) [0x41] [0x41, 0x42]
             [CHR ''5'', NL] None ()) = Inl IndexError \<and>
   status (for_pos quiet_system 0 beyond_template [5] 0 0 ()) = Inl IndexError \<and>
   events (for_pos quiet_system 0 beyond_template [5] 0 0 ()) = [LogMinimizing 0 4] \<and>
   status (do_try quiet_system (beyond_template\<lparr>diff := [5, 1]\<rparr>) 0 ()) = Inl IndexError \<and>
   events (do_try quiet_system (beyond_template\<lparr>diff := [5, 1]\<rparr>) 0 ()) =
     [LogMinimizing 0 4]"
proof -
  have d: "diff beyond_template = [1, 5]"
    by (simp add: beyond_template_def)
  have l: "read_diff_loop (diff (new_minimizer example_conf)) (readlines [CHR ''5'', NL]) = [5]"
    by (simp add: new_minimizer_def NL_def CR_def startswith_def strip_def isdigit_def
        int_of_digits_def digit_value_def)
  have h1: "\<exists>pos\<in>set (diff beyond_template). length [0x41, 0x42::byte] \<le> pos"
    by (simp add: d)
  have h2: "\<exists>pos\<in>set (read_diff_loop (diff (new_minimizer example_conf))
      (readlines [CHR ''5'', NL])). length [0x41, 0x42::byte] \<le> pos"
    unfolding l by simp
  have h3: "(0::int) \<le> int 0 \<and> length (template beyond_template) \<le> 5"
    by (simp add: beyond_template_def)
  have h4: "diff (beyond_template\<lparr>diff := [5, 1]\<rparr>) = 5 # [1] \<and> (0::int) \<le> 0 \<and>
      crash (beyond_template\<lparr>diff := [5, 1]\<rparr>) 5 \<noteq> None \<and>
      length (template (beyond_template\<lparr>diff := [5, 1]\<rparr>)) \<le> 5"
    by (simp add: beyond_template_def)
  have t: "for_pos quiet_system 0 beyond_template [5] 0 0 () =
      \<lparr>status = Inl IndexError, self = beyond_template, iteration = 0, visited = Suc 0,
       world = (), events = [LogMinimizing 0 (length (diff beyond_template) *
         length (diff beyond_template))]\<rparr>"
    using C10_offsets_unchecked [of beyond_template "[0x41, 0x42]" "[CHR ''5'', NL]"
        quiet_system "[0x41]" None "()" 0 0 5 "[]" 0] h3
    by (simp add: beyond_template_def)
  have r: "fst (read_crash beyond_template [0x41, 0x42]) = Some IndexError"
    using C10_offsets_unchecked [of beyond_template "[0x41, 0x42]" "[CHR ''5'', NL]"
        quiet_system "[0x41]" None "()" 0 0 5 "[]" 0] h1
    by blast
  have m: "status (minimize quiet_system (new_minimizer example_conf) [0x41] [0x41, 0x42]
             [CHR ''5'', NL] None ()) = Inl IndexError"
    using C10_offsets_unchecked [of "new_minimizer example_conf" "[0x41, 0x42]" "[CHR ''5'', NL]"
        quiet_system "[0x41]" None "()" 0 0 5 "[]" 0] h2
    by blast
  have y: "do_try quiet_system (beyond_template\<lparr>diff := [5, 1]\<rparr>) 0 () =
      \<lparr>status = Inl IndexError, self = beyond_template\<lparr>diff := [5, 1]\<rparr>, iteration = 0,
       visited = Suc 0, world = (),
       events = [LogMinimizing 0 (length (diff (beyond_template\<lparr>diff := [5, 1]\<rparr>)) *
         length (diff (beyond_template\<lparr>diff := [5, 1]\<rparr>)))]\<rparr>"
    using C10_offsets_unchecked [of "beyond_template\<lparr>diff := [5, 1]\<rparr>" "[0x41, 0x42]"
        "[CHR ''5'', NL]" quiet_system "[0x41]" None "()" 0 0 5 "[1]" 0] h4
    by blast
  show ?thesis
    using d l r m unfolding t y by (simp add: d)
qed

subsection \<open>The iteration counter\<close>

lemma read_twice:
  "read_crash (read_template (read_diff (new_minimizer example_conf)
      [CHR ''1'', NL, CHR ''1'', NL]) [0x41, 0x41]) [0x41, 0x42] = (None, twice)"
  by (simp add: read_crash_def read_template_def read_diff_def new_minimizer_def twice_def
      NL_def CR_def startswith_def strip_def isdigit_def int_of_digits_def digit_value_def
      getitem_def)

lemma twice_rounds:
  "for_i quiet_system 0 2 twice 0 0 () =
     \<lparr>status = Inr False,
      self = twice\<lparr>diff := [], template := [0x41, 0x42], crash := Map.empty\<rparr>,
      iteration = 2, visited = 3, world = (),
      events = [LogMinimizing 0 4, Trial 1 [0x41, 0x42] 0, LogMinimizing 1 4,
                Trial 1 [0x41, 0x42] 0, Commit 1 (Some 0x42), LogMinimizing 2 1,
                Commit 1 None]\<rparr>"
  by (simp add: numeral_2_eq_2 twice_def quiet_system_def setitem_def emit_def trial_def
      finally_remove_def commit_def pop_def)

lemma twice_rounds_resumed:
  "for_i quiet_system 3 2 twice 0 0 () =
     \<lparr>status = Inr False,
      self = twice\<lparr>diff := [], template := [0x41, 0x42], crash := Map.empty\<rparr>,
      iteration = 3, visited = 3, world = (),
      events = [Commit 1 (Some 0x42), Commit 1 None]\<rparr>"
  by (simp add: numeral_2_eq_2 twice_def quiet_system_def setitem_def emit_def trial_def
      finally_remove_def commit_def pop_def)

text \<open>
  Claim C5, at a diff file that lists the offset 1 twice, with a template and a crashing
  file of two bytes and a command that never dies. The run ends without a crash after the
  three executions of the body of the inner loop (two in the first round, one in the
  second), and its counter is 2: in the second round the offset 1 is still in the list
  and no longer in the map, and the \<^verbatim>\<open>continue\<close> of line 168 passes over line 197. The
  same three executions, skipped by a resume threshold of 3, leave the counter at 3.
\<close>

theorem C5_duplicate_offset_not_counted:
  "status (minimize quiet_system (new_minimizer example_conf) [0x41, 0x41] [0x41, 0x42]
     [CHR ''1'', NL, CHR ''1'', NL] None ()) = Inr False \<and>
   visited (minimize quiet_system (new_minimizer example_conf) [0x41, 0x41] [0x41, 0x42]
     [CHR ''1'', NL, CHR ''1'', NL] None ()) = 3 \<and>
   iteration (minimize quiet_system (new_minimizer example_conf) [0x41, 0x41] [0x41, 0x42]
     [CHR ''1'', NL, CHR ''1'', NL] None ()) = 2 \<and>
   status (minimize quiet_system (new_minimizer example_conf) [0x41, 0x41] [0x41, 0x42]
     [CHR ''1'', NL, CHR ''1'', NL] (Some ''3'') ()) = Inr False \<and>
   visited (minimize quiet_system (new_minimizer example_conf) [0x41, 0x41] [0x41, 0x42]
     [CHR ''1'', NL, CHR ''1'', NL] (Some ''3'') ()) = 3 \<and>
   iteration (minimize quiet_system (new_minimizer example_conf) [0x41, 0x41] [0x41, 0x42]
     [CHR ''1'', NL, CHR ''1'', NL] (Some ''3'') ()) = 3"
proof -
  have d: "length (diff twice) = 2"
    by (simp add: twice_def)
  have i: "py_int ''3'' = Some 3"
    by (simp add: py_int_def strip_def whitespace_def isdigit_def int_of_digits_def
        digit_value_def)
  show ?thesis
    unfolding minimize_def read_twice
    by (simp add: i do_try_def d twice_rounds twice_rounds_resumed emit_def)
qed

subsection \<open>The map and the list of offsets\<close>

lemma emit_fields:
  "status (emit es r) = status r" "self (emit es r) = self r"
  "iteration (emit es r) = iteration r" "visited (emit es r) = visited r"
  "world (emit es r) = world r" "events (emit es r) = es @ events r"
  by (simp_all add: emit_def)

lemma set_butlast_last: "xs \<noteq> [] \<Longrightarrow> set xs = insert (last xs) (set (butlast xs))"
  by (induction xs) auto

lemma last_notin_butlast: "distinct xs \<Longrightarrow> xs \<noteq> [] \<Longrightarrow> last xs \<notin> set (butlast xs)"
  by (induction xs) (auto dest: in_set_butlastD)

lemma read_crash_loop_dom:
  "read_crash_loop tmp d c = (None, c') \<Longrightarrow> dom c' = dom c \<union> set d"
proof (induction d arbitrary: c)
  case Nil
  then show ?case by simp
next
  case (Cons p d)
  then show ?case
    by (cases "p < length tmp") (auto simp: getitem_def)
qed

lemma for_i_dom_subset:
  "dom (crash st) \<subseteq> set (diff st) \<Longrightarrow> \<forall>e. status (for_i P sa k st it vis w) \<noteq> Inl e \<Longrightarrow>
   dom (crash (self (for_i P sa k st it vis w))) \<subseteq> set (diff (self (for_i P sa k st it vis w)))"
proof (induction k arbitrary: st it vis w)
  case 0
  then show ?case by simp
next
  case (Suc k)
  show ?case
  proof (cases rule: for_i_Suc [of P sa st it vis w k])
    case stop
    then show ?thesis using Suc.prems(1) by (simp add: for_pos_self)
  next
    case raise
    then show ?thesis using Suc.prems(2) by simp
  next
    case go
    let ?st' = "st\<lparr>diff := butlast (diff st),
      template := (case crash st (last (diff st)) of None \<Rightarrow> template st
        | Some b \<Rightarrow> (template st)[last (diff st) := b]),
      crash := (crash st)(last (diff st) := None)\<rparr>"
    have "dom ((crash st)(last (diff st) := None)) \<subseteq> set (butlast (diff st))"
      using Suc.prems(1) set_butlast_last [OF go(2)] by auto
    then have "dom (crash ?st') \<subseteq> set (diff ?st')"
      by simp
    note ih = Suc.IH [OF this]
    show ?thesis
      unfolding go(4) emit_fields
      by (rule ih) (rule Suc.prems(2) [unfolded go(4) emit_fields])
  qed
qed

lemma for_i_dom_eq:
  "dom (crash st) = set (diff st) \<Longrightarrow> distinct (diff st) \<Longrightarrow>
   \<forall>e. status (for_i P sa k st it vis w) \<noteq> Inl e \<Longrightarrow>
   dom (crash (self (for_i P sa k st it vis w))) = set (diff (self (for_i P sa k st it vis w))) \<and>
   distinct (diff (self (for_i P sa k st it vis w)))"
proof (induction k arbitrary: st it vis w)
  case 0
  then show ?case by simp
next
  case (Suc k)
  show ?case
  proof (cases rule: for_i_Suc [of P sa st it vis w k])
    case stop
    then show ?thesis using Suc.prems(1,2) by (simp add: for_pos_self)
  next
    case raise
    then show ?thesis using Suc.prems(3) by simp
  next
    case go
    let ?st' = "st\<lparr>diff := butlast (diff st),
      template := (case crash st (last (diff st)) of None \<Rightarrow> template st
        | Some b \<Rightarrow> (template st)[last (diff st) := b]),
      crash := (crash st)(last (diff st) := None)\<rparr>"
    have "dom ((crash st)(last (diff st) := None)) = set (butlast (diff st))"
      using Suc.prems(1) set_butlast_last [OF go(2)]
        last_notin_butlast [OF Suc.prems(2) go(2)] by auto
    then have d: "dom (crash ?st') = set (diff ?st')"
      by simp
    have "distinct (butlast (diff st))"
      using Suc.prems(2) by (rule distinct_butlast)
    then have "distinct (diff ?st')"
      by simp
    note ih = Suc.IH [OF d this]
    show ?thesis
      unfolding go(4) emit_fields
      by (rule ih) (rule Suc.prems(3) [unfolded go(4) emit_fields])
  qed
qed

lemma twice_first_round:
  "for_i quiet_system 0 (Suc 0) twice 0 0 () =
     \<lparr>status = Inr False,
      self = twice\<lparr>diff := [1], template := [0x41, 0x42], crash := Map.empty\<rparr>,
      iteration = 2, visited = 2, world = (),
      events = [LogMinimizing 0 4, Trial 1 [0x41, 0x42] 0, LogMinimizing 1 4,
                Trial 1 [0x41, 0x42] 0, Commit 1 (Some 0x42)]\<rparr>"
  by (simp add: twice_def quiet_system_def setitem_def emit_def trial_def
      finally_remove_def commit_def pop_def)

lemma scenario_A_first_round:
  "for_i example_system 0 (Suc 0) scenario_A 0 0 () =
     \<lparr>status = Inr False,
      self = scenario_A\<lparr>diff := [1], template := [0x41, 0x41, 0x41, 0x43],
        crash := [1 \<mapsto> 0x42]\<rparr>,
      iteration = 2, visited = 2, world = (),
      events = [LogMinimizing 0 4, Trial 1 [0x41, 0x42, 0x41, 0x41] 0,
                LogMinimizing 1 4, Trial 3 [0x41, 0x41, 0x41, 0x43] 0,
                Commit 3 (Some 0x43)]\<rparr>"
  by (simp add: example_system_def scenario_A_def setitem_def emit_def trial_def
      finally_remove_def commit_def pop_def fun_upd_twist)

text \<open>
  Claim C4, as amended. \<^verbatim>\<open>read_crash\<close>, when it raises nothing, leaves the list as it is
  and a map whose domain is the set of the offsets of the list. The inner loop changes
  neither of them. A commit that goes through removes the last entry of the list and
  deletes that offset from the map. So, after any number of rounds of a run that no
  exception has left, every offset of the map is in the list; and when the offsets of
  the list are pairwise different the two sets are equal, and the offsets stay pairwise
  different. (An offset that is listed twice stays in the list after its first commit,
  and is no longer in the map.)
\<close>

theorem C4_map_within_list:
  "(read_crash st0 crash_file = (None, st1) \<longrightarrow>
      diff st1 = diff st0 \<and> dom (crash st1) = set (diff st0)) \<and>
   self (for_pos P start_at st (diff st) it vis w) = st \<and>
   (commit st = (None, st2, ev) \<longrightarrow>
      diff st \<noteq> [] \<and> diff st2 = butlast (diff st) \<and>
      crash st2 = (crash st)(last (diff st) := None)) \<and>
   (dom (crash st) \<subseteq> set (diff st) \<and> (\<forall>e. status (for_i P start_at k st it vis w) \<noteq> Inl e) \<longrightarrow>
      dom (crash (self (for_i P start_at k st it vis w))) \<subseteq>
        set (diff (self (for_i P start_at k st it vis w)))) \<and>
   (dom (crash st) = set (diff st) \<and> distinct (diff st) \<and>
    (\<forall>e. status (for_i P start_at k st it vis w) \<noteq> Inl e) \<longrightarrow>
      dom (crash (self (for_i P start_at k st it vis w))) =
        set (diff (self (for_i P start_at k st it vis w))) \<and>
      distinct (diff (self (for_i P start_at k st it vis w))))"
proof -
  have a: "diff st1 = diff st0 \<and> dom (crash st1) = set (diff st0)"
    if "read_crash st0 crash_file = (None, st1)"
  proof -
    obtain eo c where l: "read_crash_loop crash_file (diff st0) Map.empty = (eo, c)"
      by (cases "read_crash_loop crash_file (diff st0) Map.empty")
    with that have "eo = None" "st1 = st0\<lparr>crash := c\<rparr>"
      by (simp_all add: read_crash_def)
    then show ?thesis
      using read_crash_loop_dom [of crash_file "diff st0" Map.empty c] l by simp
  qed
  have b: "diff st \<noteq> [] \<and> diff st2 = butlast (diff st) \<and>
      crash st2 = (crash st)(last (diff st) := None)"
    if "commit st = (None, st2, ev)"
    using that
    by (auto simp: commit_def pop_def setitem_def fun_upd_idem
        split: if_splits option.splits)
  show ?thesis
    using a b for_pos_self [of P start_at st "diff st" it vis w]
      for_i_dom_subset [of st P start_at k it vis w]
      for_i_dom_eq [of st P start_at k it vis w]
    by blast
qed

theorem C4_counterexample:
  "read_crash (read_template (read_diff (new_minimizer example_conf)
      [CHR ''1'', NL, CHR ''1'', NL]) [0x41, 0x41]) [0x41, 0x42] = (None, twice) \<and>
   dom (crash twice) = set (diff twice) \<and>
   status (for_i quiet_system 0 (Suc 0) twice 0 0 ()) = Inr False \<and>
   diff (self (for_i quiet_system 0 (Suc 0) twice 0 0 ())) = [1] \<and>
   crash (self (for_i quiet_system 0 (Suc 0) twice 0 0 ())) = Map.empty \<and>
   dom (crash (self (for_i quiet_system 0 (Suc 0) twice 0 0 ()))) \<noteq>
     set (diff (self (for_i quiet_system 0 (Suc 0) twice 0 0 ())))"
  unfolding twice_first_round
  by (simp add: twice_def read_crash_def read_template_def read_diff_def new_minimizer_def
      NL_def CR_def startswith_def strip_def isdigit_def int_of_digits_def digit_value_def
      getitem_def)

theorem C4_map_within_list_witness:
  "read_crash (read_template (new_minimizer example_conf\<lparr>diff := [1, 3]\<rparr>) [0x41, 0x41, 0x41, 0x41])
      [0x41, 0x42, 0x41, 0x43] = (None, scenario_A) \<and>
   dom (crash scenario_A) = {1, 3} \<and>
   commit scenario_A =
     (None, scenario_A\<lparr>diff := [1], template := [0x41, 0x41, 0x41, 0x43], crash := [1 \<mapsto> 0x42]\<rparr>,
      [Commit 3 (Some 0x43)]) \<and>
   status (for_i example_system 0 (Suc 0) scenario_A 0 0 ()) = Inr False \<and>
   dom (crash (self (for_i example_system 0 (Suc 0) scenario_A 0 0 ()))) = {1} \<and>
   diff (self (for_i example_system 0 (Suc 0) scenario_A 0 0 ())) = [1] \<and>
   status (for_i quiet_system 0 (Suc 0) twice 0 0 ()) = Inr False \<and>
   dom (crash (self (for_i quiet_system 0 (Suc 0) twice 0 0 ()))) \<subseteq> {1}"
proof -
  have rc: "read_crash (read_template (new_minimizer example_conf\<lparr>diff := [1, 3]\<rparr>)
      [0x41, 0x41, 0x41, 0x41]) [0x41, 0x42, 0x41, 0x43] = (None, scenario_A)"
    by (simp add: read_crash_def read_template_def new_minimizer_def scenario_A_def
        getitem_def)
  have cm: "commit scenario_A =
     (None, scenario_A\<lparr>diff := [1], template := [0x41, 0x41, 0x41, 0x43], crash := [1 \<mapsto> 0x42]\<rparr>,
      [Commit 3 (Some 0x43)])"
    by (simp add: commit_def pop_def setitem_def scenario_A_def fun_upd_twist)
  have sA: "status (for_i example_system 0 (Suc 0) scenario_A 0 0 ()) = Inr False"
    unfolding scenario_A_first_round by simp
  have sT: "status (for_i quiet_system 0 (Suc 0) twice 0 0 ()) = Inr False"
    unfolding twice_first_round by simp
  have hA: "dom (crash scenario_A) = set (diff scenario_A) \<and> distinct (diff scenario_A) \<and>
      (\<forall>e. status (for_i example_system 0 (Suc 0) scenario_A 0 0 ()) \<noteq> Inl e)"
    unfolding scenario_A_first_round by (auto simp: scenario_A_def)
  have hT: "dom (crash twice) \<subseteq> set (diff twice) \<and>
      (\<forall>e. status (for_i quiet_system 0 (Suc 0) twice 0 0 ()) \<noteq> Inl e)"
    unfolding twice_first_round by (simp add: twice_def)
  have dA: "diff (self (for_i example_system 0 (Suc 0) scenario_A 0 0 ())) = [1]"
    unfolding scenario_A_first_round by simp
  have dT: "diff (self (for_i quiet_system 0 (Suc 0) twice 0 0 ())) = [1]"
    unfolding twice_first_round by simp
  have "diff scenario_A = diff (read_template (new_minimizer example_conf\<lparr>diff := [1, 3]\<rparr>)
        [0x41, 0x41, 0x41, 0x41]) \<and>
      dom (crash scenario_A) = set (diff (read_template
        (new_minimizer example_conf\<lparr>diff := [1, 3]\<rparr>) [0x41, 0x41, 0x41, 0x41]))"
    by (rule C4_map_within_list [of "read_template (new_minimizer example_conf\<lparr>diff := [1, 3]\<rparr>)
        [0x41, 0x41, 0x41, 0x41]" "[0x41, 0x42, 0x41, 0x43]" scenario_A,
        THEN conjunct1, THEN mp, OF rc])
  then have "dom (crash scenario_A) = set (diff scenario_A)"
    by simp
  moreover have "set (diff scenario_A) = {1, 3}"
    by (simp add: scenario_A_def)
  ultimately have d0: "dom (crash scenario_A) = {1, 3}"
    by simp
  have eA: "dom (crash (self (for_i example_system 0 (Suc 0) scenario_A 0 0 ()))) =
      set (diff (self (for_i example_system 0 (Suc 0) scenario_A 0 0 ())))"
    using C4_map_within_list [of st0 crash_file st1 example_system 0 scenario_A 0 0 "()"
        st2 ev "Suc 0"] hA
    by blast
  have eT: "dom (crash (self (for_i quiet_system 0 (Suc 0) twice 0 0 ()))) \<subseteq>
      set (diff (self (for_i quiet_system 0 (Suc 0) twice 0 0 ())))"
    using C4_map_within_list [of st0 crash_file st1 quiet_system 0 twice 0 0 "()"
        st2 ev "Suc 0"] hT
    by blast
  show ?thesis
    using rc d0 cm sA sT eA eT unfolding dA dT by simp
qed

subsection \<open>The template changes in commits only\<close>

lemma trial_no_commit:
  assumes "trial P c p tb w = (res, w', ev)"
  shows "\<not> is_commit e \<or> e \<notin> set ev"
  using trial_events [OF assms] by auto

lemma for_pos_no_commit:
  "e \<in> set (events (for_pos P sa st poss it vis w)) \<Longrightarrow> \<not> is_commit e"
proof (induction poss arbitrary: it vis w)
  case Nil
  then show ?case by simp
next
  case (Cons p rest)
  show ?case
  proof (cases rule: for_pos_Cons [of sa it P st p rest vis w])
    case skip
    then show ?thesis using Cons.IH Cons.prems by simp
  next
    case absent
    then show ?thesis using Cons.IH Cons.prems by (auto simp: emit_fields)
  next
    case (beyond b)
    then show ?thesis using Cons.prems by auto
  next
    case (stop b res w' ev)
    then show ?thesis using Cons.prems trial_no_commit [OF stop(4), of e] by auto
  next
    case (pass b w' ev)
    then show ?thesis
      using Cons.IH Cons.prems trial_no_commit [OF pass(4), of e] by (auto simp: emit_fields)
  qed
qed

lemma written_no_commit:
  "\<forall>e\<in>set es. \<not> is_commit e \<Longrightarrow> written t (es @ es') = written t es'"
  by (induction t es rule: written.induct) simp_all

lemma written_length: "length (written t es) = length t"
  by (induction t es rule: written.induct) simp_all

lemma for_i_written:
  "template (self (for_i P sa k st it vis w)) =
     written (template st) (events (for_i P sa k st it vis w))"
proof (induction k arbitrary: st it vis w)
  case 0
  show ?case by simp
next
  case (Suc k)
  have n: "\<forall>e\<in>set (events (for_pos P sa st (diff st) it vis w)). \<not> is_commit e"
    by (intro ballI) (rule for_pos_no_commit)
  have r: "written (template st) (events (for_pos P sa st (diff st) it vis w)) = template st"
    using written_no_commit [OF n, of "template st" "[]"] by simp
  show ?case
  proof (cases rule: for_i_Suc [of P sa st it vis w k])
    case stop
    then show ?thesis using r by (simp add: for_pos_self)
  next
    case raise
    then show ?thesis using r by simp
  next
    case go
    show ?thesis
      unfolding go(4) emit_fields append_assoc written_no_commit [OF n] Suc.IH
      by (cases "crash st (last (diff st))") simp_all
  qed
qed

text \<open>
  Claim C6. The inner loop, which builds and tests the trials, returns the object it was
  given: the template is the same after it. Lines 202 to 205, whatever they do, leave the
  template as it is or write one byte into it, the byte of the map for the offset that
  was popped, at that offset; they write when, and only when, they report the commit of a
  byte. So the template at the end of a run, also of a run that an exception or a crash
  ends, is the template of its start with the bytes of the commits of the run written
  into it, one byte a commit, in their order; its length is the same.
\<close>

theorem C6_template_changes_in_commits_only:
  "self (for_pos P start_at st poss it vis w) = st \<and>
   (commit st = (eo, st', ev) \<longrightarrow>
      (template st' = template st \<and> (ev = [] \<or> ev = [Commit (last (diff st)) None])) \<or>
      (\<exists>b. crash st (last (diff st)) = Some b \<and> last (diff st) < length (template st) \<and>
           ev = [Commit (last (diff st)) (Some b)] \<and> eo = None \<and>
           template st' = (template st)[last (diff st) := b])) \<and>
   template (self (do_try P st start_at w)) =
     written (template st) (events (do_try P st start_at w)) \<and>
   length (template (self (do_try P st start_at w))) = length (template st)"
proof -
  have c: "(template st' = template st \<and> (ev = [] \<or> ev = [Commit (last (diff st)) None])) \<or>
      (\<exists>b. crash st (last (diff st)) = Some b \<and> last (diff st) < length (template st) \<and>
           ev = [Commit (last (diff st)) (Some b)] \<and> eo = None \<and>
           template st' = (template st)[last (diff st) := b])"
    if "commit st = (eo, st', ev)"
    using that
    by (auto simp: commit_def pop_def setitem_def split: if_splits option.splits)
  have n: "written t (es @ [LogSorry]) = written t es" for t es
    by (induction t es rule: written.induct) simp_all
  have d: "template (self (do_try P st start_at w)) =
      written (template st) (events (do_try P st start_at w))"
    using for_i_written [of P start_at "length (diff st)" st 0 0 w]
    by (auto simp: do_try_def Let_def n split: sum.splits bool.splits)
  show ?thesis
    using c d for_pos_self [of P start_at st poss it vis w]
      written_length [of "template st" "events (do_try P st start_at w)"]
    by simp
qed

theorem C6_template_changes_in_commits_only_witness:
  "commit scenario_A =
     (None, scenario_A\<lparr>diff := [1], template := [0x41, 0x41, 0x41, 0x43], crash := [1 \<mapsto> 0x42]\<rparr>,
      [Commit 3 (Some 0x43)]) \<and>
   crash scenario_A (last (diff scenario_A)) = Some 0x43 \<and>
   last (diff scenario_A) = 3 \<and>
   template (scenario_A\<lparr>diff := [1], template := [0x41, 0x41, 0x41, 0x43],
     crash := [1 \<mapsto> 0x42]\<rparr>) = (template scenario_A)[3 := 0x43] \<and>
   events (do_try example_system scenario_A 0 ()) =
     [LogMinimizing 0 4, Trial 1 [0x41, 0x42, 0x41, 0x41] 0,
      LogMinimizing 1 4, Trial 3 [0x41, 0x41, 0x41, 0x43] 0,
      Commit 3 (Some 0x43),
      LogMinimizing 2 1, Trial 1 [0x41, 0x42, 0x41, 0x43] 139, LogSuccess 139 ''SIGSEGV'',
      Copied [0x41, 0x42, 0x41, 0x43], LogWritten] \<and>
   template (self (do_try example_system scenario_A 0 ())) = [0x41, 0x41, 0x41, 0x43]"
proof -
  have cm: "commit scenario_A =
     (None, scenario_A\<lparr>diff := [1], template := [0x41, 0x41, 0x41, 0x43], crash := [1 \<mapsto> 0x42]\<rparr>,
      [Commit 3 (Some 0x43)])"
    by (simp add: commit_def pop_def setitem_def scenario_A_def fun_upd_twist)
  have l: "last (diff scenario_A) = 3" "template scenario_A = [0x41, 0x41, 0x41, 0x41]"
    by (simp_all add: scenario_A_def)
  have ev: "events (do_try example_system scenario_A 0 ()) =
     [LogMinimizing 0 4, Trial 1 [0x41, 0x42, 0x41, 0x41] 0,
      LogMinimizing 1 4, Trial 3 [0x41, 0x41, 0x41, 0x43] 0,
      Commit 3 (Some 0x43),
      LogMinimizing 2 1, Trial 1 [0x41, 0x42, 0x41, 0x43] 139, LogSuccess 139 ''SIGSEGV'',
      Copied [0x41, 0x42, 0x41, 0x43], LogWritten]"
    by (simp add: do_try_def numeral_2_eq_2 example_system_def scenario_A_def setitem_def
        emit_def trial_def finally_remove_def commit_def pop_def)
  note t = C6_template_changes_in_commits_only [of example_system 0 scenario_A "[]" 0 0 "()"
      None "scenario_A\<lparr>diff := [1], template := [0x41, 0x41, 0x41, 0x43],
        crash := [1 \<mapsto> 0x42]\<rparr>" "[Commit 3 (Some 0x43)]"]
  have a: "crash scenario_A (last (diff scenario_A)) = Some 0x43 \<and>
      template (scenario_A\<lparr>diff := [1], template := [0x41, 0x41, 0x41, 0x43],
        crash := [1 \<mapsto> 0x42]\<rparr>) = (template scenario_A)[3 := 0x43]"
    using t cm unfolding l by auto
  have b: "template (self (do_try example_system scenario_A 0 ())) = [0x41, 0x41, 0x41, 0x43]"
    using t unfolding ev l by simp
  show ?thesis
    using cm a l(1) ev b by simp
qed

subsection \<open>The buffer of a trial\<close>

lemma trial_Trial:
  assumes "trial P c p tb w = (res, w', ev)" and "Trial pos buf ret \<in> set ev"
  shows "pos = p \<and> buf = tb"
  using trial_events [OF assms(1)] assms(2) by auto

lemma for_pos_trial:
  "Trial pos buf ret \<in> set (events (for_pos P sa st poss it vis w)) \<Longrightarrow>
   pos \<in> set poss \<and> pos < length (template st) \<and>
   (\<exists>b. crash st pos = Some b \<and> buf = (template st)[pos := b])"
proof (induction poss arbitrary: it vis w)
  case Nil
  then show ?case by simp
next
  case (Cons p rest)
  show ?case
  proof (cases rule: for_pos_Cons [of sa it P st p rest vis w])
    case skip
    then show ?thesis using Cons.IH Cons.prems by auto
  next
    case absent
    then show ?thesis using Cons.IH Cons.prems by (auto simp: emit_fields)
  next
    case (beyond b)
    then show ?thesis using Cons.prems by auto
  next
    case (stop b res w' ev)
    then show ?thesis using Cons.prems trial_Trial [OF stop(4), of pos buf ret] by auto
  next
    case (pass b w' ev)
    then show ?thesis
      using Cons.IH Cons.prems trial_Trial [OF pass(4), of pos buf ret]
      by (auto simp: emit_fields)
  qed
qed

lemma trials_match_append:
  "\<forall>e\<in>set es. \<not> is_commit e \<Longrightarrow>
   \<forall>pos buf ret. Trial pos buf ret \<in> set es \<longrightarrow>
     pos < length t \<and> (\<exists>b. c pos = Some b \<and> buf = t[pos := b]) \<Longrightarrow>
   trials_match t c (es @ es') = trials_match t c es'"
proof (induction es)
  case Nil
  show ?case by simp
next
  case (Cons e es)
  have p1: "\<forall>e\<in>set es. \<not> is_commit e"
    using Cons.prems(1) by simp
  have p2: "\<forall>pos buf ret. Trial pos buf ret \<in> set es \<longrightarrow>
      pos < length t \<and> (\<exists>b. c pos = Some b \<and> buf = t[pos := b])"
    using Cons.prems(2) by simp
  have ih: "trials_match t c (es @ es') = trials_match t c es'"
    by (rule Cons.IH [OF p1 p2])
  show ?case
  proof (cases e)
    case (Trial pos buf ret)
    then have "Trial pos buf ret \<in> set (e # es)"
      by simp
    then have "pos < length t \<and> (\<exists>b. c pos = Some b \<and> buf = t[pos := b])"
      using Cons.prems(2) by blast
    then obtain b where "pos < length t" "c pos = Some b" "buf = t[pos := b]"
      by blast
    then show ?thesis using Trial ih by simp
  next
    case (Commit v bo)
    then show ?thesis using Cons.prems(1) by simp
  qed (simp_all add: ih)
qed

lemma trials_match_LogSorry: "trials_match t c (es @ [LogSorry]) = trials_match t c es"
proof (induction es arbitrary: t c)
  case Nil
  show ?case by simp
next
  case (Cons e es)
  show ?case
  proof (cases e)
    case (Commit v bo)
    show ?thesis
    proof (cases bo)
      case None
      then show ?thesis using Commit Cons.IH [of t c] by simp
    next
      case (Some b)
      show ?thesis
        unfolding Commit Some append_Cons trials_match.simps by (rule Cons.IH)
    qed
  qed (simp_all add: Cons.IH [of t c])
qed

lemma for_i_trials_match:
  "trials_match (template st) (crash st) (events (for_i P sa k st it vis w))"
proof (induction k arbitrary: st it vis w)
  case 0
  show ?case by simp
next
  case (Suc k)
  have n: "\<forall>e\<in>set (events (for_pos P sa st (diff st) it vis w)). \<not> is_commit e"
    by (intro ballI) (rule for_pos_no_commit)
  have m: "\<forall>pos buf ret. Trial pos buf ret \<in> set (events (for_pos P sa st (diff st) it vis w)) \<longrightarrow>
      pos < length (template st) \<and>
      (\<exists>b. crash st pos = Some b \<and> buf = (template st)[pos := b])"
    using for_pos_trial [of _ _ _ P sa st "diff st" it vis w] by blast
  note a = trials_match_append [OF n m]
  show ?case
  proof (cases rule: for_i_Suc [of P sa st it vis w k])
    case stop
    then show ?thesis using a [of "[]"] by simp
  next
    case raise
    then show ?thesis using a [of "[]"] by simp
  next
    case go
    let ?st' = "st\<lparr>diff := butlast (diff st),
      template := (case crash st (last (diff st)) of None \<Rightarrow> template st
        | Some b \<Rightarrow> (template st)[last (diff st) := b]),
      crash := (crash st)(last (diff st) := None)\<rparr>"
    have "trials_match (template ?st') (crash ?st')
        (events (for_i P sa k ?st' (iteration (for_pos P sa st (diff st) it vis w))
          (visited (for_pos P sa st (diff st) it vis w))
          (world (for_pos P sa st (diff st) it vis w))))"
      by (rule Suc.IH)
    then show ?thesis
      unfolding go(4) emit_fields append_assoc a
      by (cases "crash st (last (diff st))") (simp_all add: fun_upd_idem)
  qed
qed

text \<open>
  Claim C3. Every trial that the inner loop makes on an object is a trial of an offset of
  the list it runs over that is a position of the template and is in the map, and its
  buffer has the length of the template of the object, the byte of the map at that offset
  and the bytes of the template at every other position. For a whole run, with the
  template and the map followed through its commits: every trial is made on the template
  of its moment with the byte of the map of its moment at the offset of the trial.
\<close>

theorem C3_trial_buffer:
  "(\<forall>pos buf ret. Trial pos buf ret \<in> set (events (for_pos P start_at st poss it vis w)) \<longrightarrow>
      pos \<in> set poss \<and> pos < length (template st) \<and> length buf = length (template st) \<and>
      crash st pos = Some (buf ! pos) \<and>
      (\<forall>j. j \<noteq> pos \<longrightarrow> buf ! j = template st ! j)) \<and>
   self (for_pos P start_at st poss it vis w) = st \<and>
   trials_match (template st) (crash st) (events (do_try P st start_at w))"
proof -
  have a: "pos \<in> set poss \<and> pos < length (template st) \<and> length buf = length (template st) \<and>
      crash st pos = Some (buf ! pos) \<and> (\<forall>j. j \<noteq> pos \<longrightarrow> buf ! j = template st ! j)"
    if "Trial pos buf ret \<in> set (events (for_pos P start_at st poss it vis w))" for pos buf ret
    using for_pos_trial [OF that] by auto
  have b: "trials_match (template st) (crash st) (events (do_try P st start_at w))"
    using for_i_trials_match [of st P start_at "length (diff st)" 0 0 w]
    by (auto simp: do_try_def Let_def trials_match_LogSorry split: sum.splits bool.splits)
  show ?thesis
    using a b for_pos_self [of P start_at st poss it vis w] by blast
qed

theorem C3_trial_buffer_witness:
  "events (for_pos example_system 0 scenario_A [1, 3] 0 0 ()) =
     [LogMinimizing 0 4, Trial 1 [0x41, 0x42, 0x41, 0x41] 0,
      LogMinimizing 1 4, Trial 3 [0x41, 0x41, 0x41, 0x43] 0] \<and>
   template scenario_A = [0x41, 0x41, 0x41, 0x41] \<and>
   crash scenario_A 3 = Some ([0x41, 0x41, 0x41, 0x43] ! 3) \<and>
   [0x41, 0x41, 0x41, 0x43::byte] ! 0 = template scenario_A ! 0 \<and>
   [0x41, 0x41, 0x41, 0x43::byte] ! 1 = template scenario_A ! 1 \<and>
   [0x41, 0x41, 0x41, 0x43::byte] ! 2 = template scenario_A ! 2 \<and>
   trials_match (template scenario_A) (crash scenario_A)
     [LogMinimizing 0 4, Trial 1 [0x41, 0x42, 0x41, 0x41] 0,
      LogMinimizing 1 4, Trial 3 [0x41, 0x41, 0x41, 0x43] 0,
      Commit 3 (Some 0x43),
      LogMinimizing 2 1, Trial 1 [0x41, 0x42, 0x41, 0x43] 139, LogSuccess 139 ''SIGSEGV'',
      Copied [0x41, 0x42, 0x41, 0x43], LogWritten] \<and>
   \<not> trials_match (template scenario_A) (crash scenario_A)
     [Trial 1 [0x41, 0x42, 0x41, 0x43] 0]"
proof -
  have ev: "events (for_pos example_system 0 scenario_A [1, 3] 0 0 ()) =
     [LogMinimizing 0 4, Trial 1 [0x41, 0x42, 0x41, 0x41] 0,
      LogMinimizing 1 4, Trial 3 [0x41, 0x41, 0x41, 0x43] 0]"
    by (simp add: example_system_def scenario_A_def setitem_def emit_def trial_def
        finally_remove_def)
  have run: "events (do_try example_system scenario_A 0 ()) =
     [LogMinimizing 0 4, Trial 1 [0x41, 0x42, 0x41, 0x41] 0,
      LogMinimizing 1 4, Trial 3 [0x41, 0x41, 0x41, 0x43] 0,
      Commit 3 (Some 0x43),
      LogMinimizing 2 1, Trial 1 [0x41, 0x42, 0x41, 0x43] 139, LogSuccess 139 ''SIGSEGV'',
      Copied [0x41, 0x42, 0x41, 0x43], LogWritten]"
    by (simp add: do_try_def numeral_2_eq_2 example_system_def scenario_A_def setitem_def
        emit_def trial_def finally_remove_def commit_def pop_def)
  have t: "template scenario_A = [0x41, 0x41, 0x41, 0x41]"
    by (simp add: scenario_A_def)
  have mem: "Trial 3 [0x41, 0x41, 0x41, 0x43] 0 \<in>
      set (events (for_pos example_system 0 scenario_A [1, 3] 0 0 ()))"
    unfolding ev by simp
  note th = C3_trial_buffer [of example_system 0 scenario_A "[1, 3]" 0 0 "()"]
  have one: "crash scenario_A 3 = Some ([0x41, 0x41, 0x41, 0x43] ! 3) \<and>
      (\<forall>j. j \<noteq> 3 \<longrightarrow> [0x41, 0x41, 0x41, 0x43::byte] ! j = template scenario_A ! j)"
    using th mem by blast
  have all: "trials_match (template scenario_A) (crash scenario_A)
      (events (do_try example_system scenario_A 0 ()))"
    using th by blast
  have neg: "\<not> trials_match (template scenario_A) (crash scenario_A)
     [Trial 1 [0x41, 0x42, 0x41, 0x43] 0]"
    by (simp add: scenario_A_def)
  from one have j: "j \<noteq> 3 \<Longrightarrow> [0x41, 0x41, 0x41, 0x43::byte] ! j = template scenario_A ! j"
    for j by blast
  have j0: "[0x41, 0x41, 0x41, 0x43::byte] ! 0 = template scenario_A ! 0"
    by (rule j) simp
  have j1: "[0x41, 0x41, 0x41, 0x43::byte] ! 1 = template scenario_A ! 1"
    by (rule j) simp
  have j2: "[0x41, 0x41, 0x41, 0x43::byte] ! 2 = template scenario_A ! 2"
    by (rule j) simp
  from ev t one all [unfolded run] neg j0 j1 j2 show ?thesis
    by blast
qed
end
